theory Spec2Isabelle
  imports Main "HOL-Library.AList"
begin

section \<open>Adjacency-set graphs of dsc40graph.py\<close>

text \<open>
  The module stores a graph as a Python dict from node labels to Python sets of labels,
  together with an integer edge counter. A dict is modelled by an association list in
  insertion order (\<open>d[k] = v\<close> overwrites in place or appends, \<open>del d[k]\<close> drops the
  entry). A Python set is modelled by a list: \<open>add\<close> appends an element that is not yet
  there, \<open>discard\<close> removes it, \<open>in\<close> is membership, \<open>len\<close> the length, and a
  \<open>for\<close> loop visits the elements in list order. Python fixes no iteration order for a
  set, so the theorems below speak about the set of elements only.
  The counter is an unbounded Python integer.

  A method that can raise returns a pair: the exception raised, if any, and the state the
  object is left in.
\<close>

datatype error = ValueError | KeyError | RuntimeError

type_synonym 'a adjacency = "('a \<times> 'a list) list"

subsection \<open>Labels and their two equalities\<close>

text \<open>
  A dict or a set finds a key by hash and then by identity or \<open>==\<close>; in the model
  this is HOL equality of labels, and the dict and set primitives below are written for
  any label type. The operator \<open>==\<close> itself, which \<open>UndirectedGraph.add_edge\<close> applies
  to its two arguments, is a different relation: a float NaN object is found in a dict
  or set that holds it, yet it is not \<open>==\<close> to itself. \<open>Plain a\<close> is a label whose
  \<open>==\<close> is equality of values; \<open>NaN i\<close> is the \<open>i\<close>-th NaN object, equal under
  \<open>==\<close> to nothing.
\<close>

datatype 'a label = Plain 'a | NaN nat

fun py_eq :: "'a label \<Rightarrow> 'a label \<Rightarrow> bool" where
  "py_eq (Plain a) (Plain b) = (a = b)"
| "py_eq (Plain a) (NaN j) = False"
| "py_eq (NaN i) y = False"

subsection \<open>Python dict and set primitives\<close>

definition getitem :: "('k \<times> 'v) list \<Rightarrow> 'k \<Rightarrow> error + 'v" where
  "getitem d k = (case map_of d k of None \<Rightarrow> Inl KeyError | Some v \<Rightarrow> Inr v)"

definition set_add :: "'a list \<Rightarrow> 'a \<Rightarrow> 'a list" where
  "set_add s x = (if x \<in> set s then s else s @ [x])"

definition set_discard :: "'a list \<Rightarrow> 'a \<Rightarrow> 'a list" where
  "set_discard s x = removeAll x s"

text \<open>\<open>d[k].add(x)\<close> and \<open>d[k].discard(x)\<close>: the lookup of \<open>k\<close> may raise.\<close>

definition add_at :: "'a adjacency \<Rightarrow> 'a \<Rightarrow> 'a \<Rightarrow> error + 'a adjacency" where
  "add_at d k x =
     (case getitem d k of
        Inl e \<Rightarrow> Inl e
      | Inr s \<Rightarrow> Inr (AList.update k (set_add s x) d))"

definition discard_at :: "'a adjacency \<Rightarrow> 'a \<Rightarrow> 'a \<Rightarrow> error + 'a adjacency" where
  "discard_at d k x =
     (case getitem d k of
        Inl e \<Rightarrow> Inl e
      | Inr s \<Rightarrow> Inr (AList.update k (set_discard s x) d))"

subsection \<open>Edge views\<close>

record 'a edge_view =
  view_adj :: "'a adjacency"
  view_number_of_edges :: int

text \<open>\<open>_EdgeView.__contains__\<close>: the lookup is tried and a \<open>KeyError\<close> is caught.\<close>

definition contains :: "'a edge_view \<Rightarrow> 'a \<times> 'a \<Rightarrow> error + bool" where
  "contains view edge =
     (case edge of (u, v) \<Rightarrow>
        (case getitem (view_adj view) u of
           Inr s \<Rightarrow> Inr (v \<in> set s)
         | Inl KeyError \<Rightarrow> Inr False
         | Inl e \<Rightarrow> Inl e))"

definition len :: "'a edge_view \<Rightarrow> int" where
  "len view = view_number_of_edges view"

text \<open>
  \<open>_UndirectedEdgeView.__iter__\<close>: the generator is modelled by the list of the pairs it
  yields; \<open>seen\<close> holds the frozensets met so far.
\<close>

definition frozenset :: "'a \<times> 'a \<Rightarrow> 'a set" where
  "frozenset e = (case e of (u, v) \<Rightarrow> {u, v})"

fun iter_neighbors :: "'a \<Rightarrow> 'a list \<Rightarrow> 'a set list \<times> ('a \<times> 'a) list
    \<Rightarrow> 'a set list \<times> ('a \<times> 'a) list" where
  "iter_neighbors u [] (seen, out) = (seen, out)"
| "iter_neighbors u (v # vs) (seen, out) =
     (let edge = frozenset (u, v) in
      if edge \<notin> set seen then iter_neighbors u vs (edge # seen, out @ [(u, v)])
      else iter_neighbors u vs (seen, out))"

fun iter_items :: "'a adjacency \<Rightarrow> 'a set list \<times> ('a \<times> 'a) list
    \<Rightarrow> 'a set list \<times> ('a \<times> 'a) list" where
  "iter_items [] st = st"
| "iter_items ((u, neighbors) # items) st = iter_items items (iter_neighbors u neighbors st)"

definition undirected_iter :: "'a edge_view \<Rightarrow> ('a \<times> 'a) list" where
  "undirected_iter view = snd (iter_items (view_adj view) ([], []))"

text \<open>\<open>_DirectedEdgeView.__iter__\<close>.\<close>

definition directed_iter :: "'a edge_view \<Rightarrow> ('a \<times> 'a) list" where
  "directed_iter view = concat (map (\<lambda>(u, neighbors). map (\<lambda>v. (u, v)) neighbors) (view_adj view))"

subsection \<open>The base class\<close>

record 'a graph =
  adj :: "'a adjacency"
  number_of_edges :: int

definition nodes :: "('a, 'b) graph_scheme \<Rightarrow> 'a list" where
  "nodes g = map fst (adj g)"

definition edges :: "('a, 'b) graph_scheme \<Rightarrow> 'a edge_view" where
  "edges g = \<lparr>view_adj = adj g, view_number_of_edges = number_of_edges g\<rparr>"

definition add_node :: "'a \<Rightarrow> ('a, 'b) graph_scheme \<Rightarrow> ('a, 'b) graph_scheme" where
  "add_node label g =
     (if label \<notin> set (nodes g) then g\<lparr>adj := AList.update label [] (adj g)\<rparr> else g)"

subsection \<open>Undirected graphs\<close>

definition new_undirected_graph :: "'a graph" where
  "new_undirected_graph = \<lparr>adj = [], number_of_edges = 0\<rparr>"

text \<open>
  \<open>for x in {u_label, v_label}: if x not in self.adj: self.adj[x] = set()\<close>.
  The set literal holds one label when both are equal; two distinct labels are visited
  here in the order written.
\<close>

fun create_missing :: "'a list \<Rightarrow> 'a adjacency \<Rightarrow> 'a adjacency" where
  "create_missing [] d = d"
| "create_missing (x # xs) d =
     create_missing xs (if map_of d x = None then AList.update x [] d else d)"

definition undirected_add_edge ::
    "'a label \<Rightarrow> 'a label \<Rightarrow> 'a label graph \<Rightarrow> error option \<times> 'a label graph" where
  "undirected_add_edge u_label v_label g =
     (if py_eq u_label v_label then (Some ValueError, g)
      else
        let g1 = g\<lparr>adj := create_missing (remdups [u_label, v_label]) (adj g)\<rparr> in
        (case contains (edges g1) (u_label, v_label) of
           Inl e \<Rightarrow> (Some e, g1)
         | Inr True \<Rightarrow> (None, g1)
         | Inr False \<Rightarrow>
             (case add_at (adj g1) u_label v_label of
                Inl e \<Rightarrow> (Some e, g1)
              | Inr d2 \<Rightarrow>
                  (case add_at d2 v_label u_label of
                     Inl e \<Rightarrow> (Some e, g1\<lparr>adj := d2\<rparr>)
                   | Inr d3 \<Rightarrow>
                       (None, g1\<lparr>adj := d3, number_of_edges := number_of_edges g1 + 1\<rparr>)))))"

text \<open>
  The loop of \<open>UndirectedGraph.remove_node\<close> over \<open>self.adj[label]\<close>. The set iterated
  is the one stored for \<open>label\<close>; when a neighbor is \<open>label\<close> itself the loop body
  shrinks that very set, and Python's set iterator then raises \<open>RuntimeError\<close>.
\<close>

fun undirected_remove_loop :: "'a \<Rightarrow> 'a list \<Rightarrow> 'a graph \<Rightarrow> error option \<times> 'a graph" where
  "undirected_remove_loop label [] g = (None, g)"
| "undirected_remove_loop label (neighbor # rest) g =
     (case discard_at (adj g) neighbor label of
        Inl e \<Rightarrow> (Some e, g)
      | Inr d \<Rightarrow>
          let g' = g\<lparr>adj := d, number_of_edges := number_of_edges g - 1\<rparr> in
          if neighbor = label then (Some RuntimeError, g')
          else undirected_remove_loop label rest g')"

definition undirected_remove_node :: "'a \<Rightarrow> 'a graph \<Rightarrow> error option \<times> 'a graph" where
  "undirected_remove_node label g =
     (if label \<notin> set (nodes g) then (None, g)
      else
        (case getitem (adj g) label of
           Inl e \<Rightarrow> (Some e, g)
         | Inr s \<Rightarrow>
             (case undirected_remove_loop label s g of
                (Some e, g') \<Rightarrow> (Some e, g')
              | (None, g') \<Rightarrow> (None, g'\<lparr>adj := AList.delete label (adj g')\<rparr>))))"


subsection \<open>Directed graphs\<close>

record 'a digraph = "'a graph" +
  back_adj :: "'a adjacency"

definition new_directed_graph :: "'a digraph" where
  "new_directed_graph = \<lparr>adj = [], number_of_edges = 0, back_adj = []\<rparr>"

fun directed_create_missing :: "'a list \<Rightarrow> 'a digraph \<Rightarrow> 'a digraph" where
  "directed_create_missing [] g = g"
| "directed_create_missing (x # xs) g =
     (let g1 = (if map_of (adj g) x = None then g\<lparr>adj := AList.update x [] (adj g)\<rparr> else g);
          g2 = (if map_of (back_adj g1) x = None
                then g1\<lparr>back_adj := AList.update x [] (back_adj g1)\<rparr> else g1)
      in directed_create_missing xs g2)"

definition directed_add_edge :: "'a \<Rightarrow> 'a \<Rightarrow> 'a digraph \<Rightarrow> error option \<times> 'a digraph" where
  "directed_add_edge u_label v_label g =
     (let g1 = directed_create_missing (remdups [u_label, v_label]) g in
      (case add_at (adj g1) u_label v_label of
         Inl e \<Rightarrow> (Some e, g1)
       | Inr d \<Rightarrow>
           (case add_at (back_adj g1) v_label u_label of
              Inl e \<Rightarrow> (Some e, g1\<lparr>adj := d\<rparr>)
            | Inr b \<Rightarrow>
                (None, g1\<lparr>adj := d, back_adj := b,
                          number_of_edges := number_of_edges g1 + 1\<rparr>))))"

text \<open>The self-loop branch of \<open>DirectedGraph.remove_node\<close>.\<close>

definition directed_remove_self_loop :: "'a \<Rightarrow> 'a digraph \<Rightarrow> error option \<times> 'a digraph" where
  "directed_remove_self_loop node g =
     (case discard_at (adj g) node node of
        Inl e \<Rightarrow> (Some e, g)
      | Inr d \<Rightarrow>
          (case discard_at (back_adj g) node node of
             Inl e \<Rightarrow> (Some e, g\<lparr>adj := d\<rparr>)
           | Inr b \<Rightarrow>
               (None, g\<lparr>adj := d, back_adj := b,
                        number_of_edges := number_of_edges g - 1\<rparr>)))"

text \<open>The loop over \<open>self.back_adj[node]\<close>; it changes \<open>self.adj\<close> only.\<close>

fun directed_remove_loop :: "'a \<Rightarrow> 'a list \<Rightarrow> 'a digraph \<Rightarrow> error option \<times> 'a digraph" where
  "directed_remove_loop node [] g = (None, g)"
| "directed_remove_loop node (parent # rest) g =
     (case discard_at (adj g) parent node of
        Inl e \<Rightarrow> (Some e, g)
      | Inr d \<Rightarrow>
          directed_remove_loop node rest
            (g\<lparr>adj := d, number_of_edges := number_of_edges g - 1\<rparr>))"

definition directed_remove_node :: "'a \<Rightarrow> 'a digraph \<Rightarrow> error option \<times> 'a digraph" where
  "directed_remove_node node g =
     (if node \<notin> set (nodes g) then (None, g)
      else
        (case getitem (back_adj g) node of
           Inl e \<Rightarrow> (Some e, g)
         | Inr b \<Rightarrow>
             (case (if node \<in> set b then directed_remove_self_loop node g else (None, g)) of
                (Some e, g1) \<Rightarrow> (Some e, g1)
              | (None, g1) \<Rightarrow>
                  (case getitem (back_adj g1) node of
                     Inl e \<Rightarrow> (Some e, g1)
                   | Inr parents \<Rightarrow>
                       (case directed_remove_loop node parents g1 of
                          (Some e, g2) \<Rightarrow> (Some e, g2)
                        | (None, g2) \<Rightarrow>
                            (case getitem (adj g2) node of
                               Inl e \<Rightarrow> (Some e, g2)
                             | Inr s \<Rightarrow>
                                 (None, g2\<lparr>number_of_edges :=
                                              number_of_edges g2 - int (length s),
                                            adj := AList.delete node (adj g2)\<rparr>)))))))"

definition predecessors :: "'a \<Rightarrow> 'a digraph \<Rightarrow> error + 'a list" where
  "predecessors node g = getitem (back_adj g) node"

definition successors :: "'a \<Rightarrow> 'a digraph \<Rightarrow> error + 'a list" where
  "successors node g = getitem (adj g) node"

definition directed_neighbors :: "'a \<Rightarrow> 'a digraph \<Rightarrow> error + 'a list" where
  "directed_neighbors node g = successors node g"

subsection \<open>Sequences of calls\<close>

text \<open>
  A client calls the mutators one after the other; a call that raises leaves the object
  in the state reached when the exception left the method, and the client may go on.
\<close>

datatype 'a call = AddNode 'a | AddEdge 'a 'a | RemoveNode 'a

fun undirected_call ::
    "'a label call \<Rightarrow> 'a label graph \<Rightarrow> error option \<times> 'a label graph" where
  "undirected_call (AddNode x) g = (None, add_node x g)"
| "undirected_call (AddEdge u v) g = undirected_add_edge u v g"
| "undirected_call (RemoveNode x) g = undirected_remove_node x g"

fun undirected_run :: "'a label call list \<Rightarrow> 'a label graph \<Rightarrow> 'a label graph" where
  "undirected_run [] g = g"
| "undirected_run (c # cs) g = undirected_run cs (snd (undirected_call c g))"


fun directed_call :: "'a call \<Rightarrow> 'a digraph \<Rightarrow> error option \<times> 'a digraph" where
  "directed_call (AddNode x) g = (None, add_node x g)"
| "directed_call (AddEdge u v) g = directed_add_edge u v g"
| "directed_call (RemoveNode x) g = directed_remove_node x g"

fun directed_run :: "'a call list \<Rightarrow> 'a digraph \<Rightarrow> 'a digraph" where
  "directed_run [] g = g"
| "directed_run (c # cs) g = directed_run cs (snd (directed_call c g))"

subsection \<open>What a state denotes\<close>

text \<open>
  The set stored for a label (empty for an unknown label), the keys, and the unordered
  pairs an undirected adjacency connects.
\<close>

definition stored :: "'a adjacency \<Rightarrow> 'a \<Rightarrow> 'a set" where
  "stored d u = (case map_of d u of None \<Rightarrow> {} | Some s \<Rightarrow> set s)"

definition keys :: "'a adjacency \<Rightarrow> 'a set" where
  "keys d = fst ` set d"

definition connected_pairs :: "'a adjacency \<Rightarrow> 'a set set" where
  "connected_pairs d = (\<lambda>(u, v). {u, v}) ` {(u, v). v \<in> stored d u}"

text \<open>The pairs \<open>(u, v)\<close> met when scanning all entries of the items of a dict.\<close>

definition item_pairs :: "'a adjacency \<Rightarrow> ('a \<times> 'a) set" where
  "item_pairs d = (\<Union>(u, s) \<in> set d. Pair u ` set s)"

subsection \<open>Invariants of an undirected graph\<close>

text \<open>
  Every stored set is duplicate-free, adjacency is symmetric, no label is its own
  neighbor, and the counter is the number of connected unordered pairs.
\<close>

definition values_distinct :: "'a adjacency \<Rightarrow> bool" where
  "values_distinct d \<longleftrightarrow> (\<forall>u s. map_of d u = Some s \<longrightarrow> distinct s)"

definition symmetric :: "'a adjacency \<Rightarrow> bool" where
  "symmetric d \<longleftrightarrow> (\<forall>u v. v \<in> stored d u \<longrightarrow> u \<in> stored d v)"



text \<open>
  Python compares dicts of sets without regard to order: two adjacency dicts are equal
  when they have the same keys and equal sets under each key.
\<close>

definition mapping :: "'a adjacency \<Rightarrow> 'a \<Rightarrow> 'a set option" where
  "mapping d k = map_option set (map_of d k)"

section \<open>Properties of the primitives\<close>

lemma stored_update: "stored (AList.update k s d) = (stored d)(k := set s)"
  by (auto simp: stored_def update_conv' fun_eq_iff)



lemma map_of_None_keys: "map_of d k = None \<longleftrightarrow> k \<notin> keys d"
  by (simp add: keys_def map_of_eq_None_iff)

lemma keys_update: "keys (AList.update k s d) = insert k (keys d)"
  by (simp add: keys_def dom_update)

lemma map_of_create_missing:
  "map_of (create_missing xs d) k =
     (if k \<in> set xs \<and> map_of d k = None then Some [] else map_of d k)"
  by (induction xs arbitrary: d) (auto simp: update_conv')

lemma stored_create_missing: "stored (create_missing xs d) = stored d"
  by (auto simp: stored_def map_of_create_missing fun_eq_iff)

lemma keys_create_missing: "keys (create_missing xs d) = keys d \<union> set xs"
  by (induction xs arbitrary: d) (auto simp: keys_update map_of_None_keys)

lemma values_distinct_update:
  assumes "values_distinct d" "distinct s"
  shows "values_distinct (AList.update k s d)"
  unfolding values_distinct_def
proof (intro allI impI)
  fix u t
  assume "map_of (AList.update k s d) u = Some t"
  then have "(u = k \<and> t = s) \<or> map_of d u = Some t"
    by (auto simp: update_conv' split: if_splits)
  then show "distinct t"
    using assms unfolding values_distinct_def by blast
qed

lemma values_distinct_create_missing:
  "values_distinct d \<Longrightarrow> values_distinct (create_missing xs d)"
  by (induction xs arbitrary: d) (simp_all add: values_distinct_update)

declare create_missing.simps [simp del]

lemma remdups_pair: "u \<noteq> v \<Longrightarrow> remdups [u, v] = [u, v]"
  by simp


lemma stored_set_add:
  "map_of d k = Some s \<Longrightarrow> add_at d k x = Inr (AList.update k (set_add s x) d)"
  by (simp add: add_at_def getitem_def)

lemma set_set_add: "set (set_add s x) = insert x (set s)"
  by (auto simp: set_add_def)

lemma distinct_set_add: "distinct s \<Longrightarrow> distinct (set_add s x)"
  by (auto simp: set_add_def)

lemma values_distinctD: "values_distinct d \<Longrightarrow> map_of d k = Some s \<Longrightarrow> distinct s"
  unfolding values_distinct_def by blast

lemma py_eq_imp_eq: "py_eq u v \<Longrightarrow> u = v"
  by (cases u; cases v) simp_all

lemma undirected_add_edge_new:
  assumes "u \<noteq> v" "v \<notin> stored (adj g) u"
  shows "\<exists>d'. undirected_add_edge u v g =
            (None, g\<lparr>adj := d', number_of_edges := number_of_edges g + 1\<rparr>) \<and>
          stored d' = (stored (adj g))(u := insert v (stored (adj g) u),
                                       v := insert u (stored (adj g) v)) \<and>
          keys d' = insert u (insert v (keys (adj g))) \<and>
          (values_distinct (adj g) \<longrightarrow> values_distinct d')"
proof -
  define d1 where "d1 = create_missing (remdups [u, v]) (adj g)"
  obtain su where su: "map_of d1 u = Some su"
    unfolding d1_def by (cases "map_of (adj g) u") (auto simp: map_of_create_missing)
  obtain sv where sv: "map_of d1 v = Some sv"
    unfolding d1_def by (cases "map_of (adj g) v") (auto simp: map_of_create_missing)
  have st1: "stored d1 = stored (adj g)"
    using assms(1) by (simp add: d1_def stored_create_missing)
  have "stored d1 u = set su" "stored d1 v = set sv"
    using su sv by (simp_all add: stored_def)
  then have su_set: "set su = stored (adj g) u" and sv_set: "set sv = stored (adj g) v"
    by (simp_all add: st1)
  define d2 where "d2 = AList.update u (set_add su v) d1"
  define d3 where "d3 = AList.update v (set_add sv u) d2"
  have sv2: "map_of d2 v = Some sv"
    using assms(1) sv by (simp add: d2_def update_conv')
  have npe: "\<not> py_eq u v"
    using assms(1) by (blast dest: py_eq_imp_eq)
  have "v \<notin> set su" using assms(2) su_set by simp
  then have res: "undirected_add_edge u v g =
      (None, g\<lparr>adj := d3, number_of_edges := number_of_edges g + 1\<rparr>)"
    using assms(1) npe su sv2 unfolding d1_def d2_def d3_def
    by (simp add: undirected_add_edge_def Let_def contains_def edges_def getitem_def add_at_def)
  have st3: "stored d3 = (stored (adj g))(u := insert v (stored (adj g) u),
                                       v := insert u (stored (adj g) v))"
    by (simp add: d3_def d2_def stored_update st1 set_set_add su_set sv_set)
  have k3: "keys d3 = insert u (insert v (keys (adj g)))"
    using assms(1) by (auto simp: d3_def d2_def keys_update d1_def keys_create_missing)
  have vd: "values_distinct (adj g) \<longrightarrow> values_distinct d3"
  proof
    assume "values_distinct (adj g)"
    then have "values_distinct d1" by (simp add: d1_def values_distinct_create_missing)
    then have "values_distinct d2"
      unfolding d2_def using su
      by (intro values_distinct_update distinct_set_add) (auto dest: values_distinctD)
    then show "values_distinct d3"
      unfolding d3_def using sv2
      by (intro values_distinct_update distinct_set_add) (auto dest: values_distinctD)
  qed
  from res st3 k3 vd show ?thesis
    by (intro exI[of _ d3] conjI)
qed

lemma stored_SomeE:
  assumes "v \<in> stored d u"
  obtains s where "map_of d u = Some s" "v \<in> set s"
  using assms by (cases "map_of d u") (simp_all add: stored_def)

lemma undirected_add_edge_old:
  assumes "u \<noteq> v" "v \<in> stored (adj g) u"
  shows "\<exists>d'. undirected_add_edge u v g = (None, g\<lparr>adj := d'\<rparr>) \<and>
          stored d' = stored (adj g) \<and>
          keys d' = insert u (insert v (keys (adj g))) \<and>
          (values_distinct (adj g) \<longrightarrow> values_distinct d')"
proof -
  define d1 where "d1 = create_missing (remdups [u, v]) (adj g)"
  have st1: "stored d1 = stored (adj g)"
    by (simp add: d1_def stored_create_missing)
  then have "v \<in> stored d1 u" using assms(2) by simp
  then obtain su where su: "map_of d1 u = Some su" "v \<in> set su"
    by (rule stored_SomeE)
  have c: "contains (edges (g\<lparr>adj := d1\<rparr>)) (u, v) = Inr True"
    using su by (simp add: contains_def edges_def getitem_def)
  have npe: "\<not> py_eq u v"
    using assms(1) by (blast dest: py_eq_imp_eq)
  have res: "undirected_add_edge u v g = (None, g\<lparr>adj := d1\<rparr>)"
    using assms(1) npe c unfolding undirected_add_edge_def d1_def Let_def
    by simp
  have k1: "keys d1 = insert u (insert v (keys (adj g)))"
    using assms(1) by (auto simp: d1_def keys_create_missing)
  have vd: "values_distinct (adj g) \<longrightarrow> values_distinct d1"
    by (simp add: d1_def values_distinct_create_missing)
  from res st1 k1 vd show ?thesis
    by (intro exI[of _ d1] conjI)
qed












section \<open>Adjacency as sets\<close>

lemma symmetricD: "symmetric d \<Longrightarrow> v \<in> stored d u \<Longrightarrow> u \<in> stored d v"
  unfolding symmetric_def by blast


lemma connected_pairs_iff:
  "e \<in> connected_pairs d \<longleftrightarrow> (\<exists>u v. v \<in> stored d u \<and> e = {u, v})"
  by (auto simp: connected_pairs_def)









section \<open>The invariant of undirected graphs\<close>














lemma undirected_add_edge_no_error:
  assumes "u \<noteq> v"
  shows "fst (undirected_add_edge u v g) = None"
proof (cases "v \<in> stored (adj g) u")
  case True
  from undirected_add_edge_old[OF assms True] show ?thesis by auto
next
  case False
  from undirected_add_edge_new[OF assms False] show ?thesis by auto
qed






section \<open>Dict equality and the scan of the items\<close>

lemma mapping_alt: "mapping d k = (if k \<in> keys d then Some (stored d k) else None)"
  by (cases "map_of d k") (simp_all add: mapping_def stored_def map_of_None_keys[symmetric])

lemma mapping_eqI: "stored d = stored d' \<Longrightarrow> keys d = keys d' \<Longrightarrow> mapping d = mapping d'"
  by (simp add: fun_eq_iff mapping_alt)

lemma iter_neighbors_inv:
  assumes "iter_neighbors u vs (seen, out) = (seen', out')"
    and "distinct seen" and "map frozenset out = rev seen"
  shows "distinct seen' \<and> map frozenset out' = rev seen' \<and>
         set seen' = set seen \<union> frozenset ` Pair u ` set vs \<and>
         set out' \<subseteq> set out \<union> Pair u ` set vs"
  using assms
proof (induction vs arbitrary: seen out)
  case Nil
  then show ?case by simp
next
  case (Cons v vs)
  show ?case
  proof (cases "frozenset (u, v) \<in> set seen")
    case True
    then have "iter_neighbors u vs (seen, out) = (seen', out')"
      using Cons.prems(1) by simp
    from Cons.IH[OF this Cons.prems(2,3)] True show ?thesis
      by auto
  next
    case False
    then have "iter_neighbors u vs (frozenset (u, v) # seen, out @ [(u, v)]) = (seen', out')"
      using Cons.prems(1) by simp
    moreover have "distinct (frozenset (u, v) # seen)"
      using False Cons.prems(2) by simp
    moreover have "map frozenset (out @ [(u, v)]) = rev (frozenset (u, v) # seen)"
      using Cons.prems(3) by simp
    ultimately have "distinct seen' \<and> map frozenset out' = rev seen' \<and>
         set seen' = set (frozenset (u, v) # seen) \<union> frozenset ` Pair u ` set vs \<and>
         set out' \<subseteq> set (out @ [(u, v)]) \<union> Pair u ` set vs"
      by (rule Cons.IH)
    then show ?thesis by auto
  qed
qed

lemma item_pairs_Nil: "item_pairs [] = {}"
  by (simp add: item_pairs_def)

lemma item_pairs_Cons: "item_pairs ((u, s) # d) = Pair u ` set s \<union> item_pairs d"
  by (simp add: item_pairs_def)

lemma iter_items_inv:
  assumes "iter_items d (seen, out) = (seen', out')"
    and "distinct seen" and "map frozenset out = rev seen"
  shows "distinct seen' \<and> map frozenset out' = rev seen' \<and>
         set seen' = set seen \<union> frozenset ` item_pairs d \<and>
         set out' \<subseteq> set out \<union> item_pairs d"
  using assms
proof (induction d arbitrary: seen out)
  case Nil
  then show ?case by (simp add: item_pairs_Nil)
next
  case (Cons p d)
  obtain u s where p: "p = (u, s)" by (cases p)
  obtain seen1 out1 where r1: "iter_neighbors u s (seen, out) = (seen1, out1)"
    by (cases "iter_neighbors u s (seen, out)")
  from iter_neighbors_inv[OF r1 Cons.prems(2,3)]
  have a: "distinct seen1" and b: "map frozenset out1 = rev seen1"
    and c: "set seen1 = set seen \<union> frozenset ` Pair u ` set s"
    and e: "set out1 \<subseteq> set out \<union> Pair u ` set s"
    by simp_all
  have "iter_items d (seen1, out1) = (seen', out')"
    using Cons.prems(1) by (simp add: p r1)
  from Cons.IH[OF this a b]
  have a': "distinct seen'" and b': "map frozenset out' = rev seen'"
    and c': "set seen' = set seen1 \<union> frozenset ` item_pairs d"
    and e': "set out' \<subseteq> set out1 \<union> item_pairs d"
    by simp_all
  have "set seen' = set seen \<union> frozenset ` item_pairs (p # d)"
    unfolding c' c p item_pairs_Cons by (simp add: image_Un Un_assoc)
  moreover have "set out' \<subseteq> set out \<union> item_pairs (p # d)"
    using e' e unfolding p item_pairs_Cons by blast
  ultimately show ?case using a' b' by simp
qed

lemma item_pairs_stored:
  assumes "distinct (map fst d)"
  shows "item_pairs d = {(u, v). v \<in> stored d u}"
proof (rule set_eqI)
  fix e :: "'a \<times> 'a"
  obtain u v where e: "e = (u, v)" by (cases e)
  have "(u, v) \<in> item_pairs d \<longleftrightarrow> (\<exists>s. (u, s) \<in> set d \<and> v \<in> set s)"
    by (auto simp: item_pairs_def)
  also have "\<dots> \<longleftrightarrow> (\<exists>s. map_of d u = Some s \<and> v \<in> set s)"
    using assms by (metis map_of_SomeD map_of_is_SomeI)
  also have "\<dots> \<longleftrightarrow> v \<in> stored d u"
    by (cases "map_of d u") (simp_all add: stored_def)
  finally show "e \<in> item_pairs d \<longleftrightarrow> e \<in> {(u, v). v \<in> stored d u}"
    by (simp add: e)
qed

lemma frozenset_image_stored:
  "frozenset ` {(u, v). v \<in> stored d u} = connected_pairs d"
proof -
  have "frozenset = (\<lambda>(u, v). {u, v})"
    by (simp add: fun_eq_iff frozenset_def)
  then show ?thesis unfolding connected_pairs_def by (rule arg_cong2[OF _ refl])
qed

lemma undirected_iter_inv:
  assumes "distinct (map fst (view_adj view))"
  shows "distinct (map frozenset (undirected_iter view))"
    and "frozenset ` set (undirected_iter view) = connected_pairs (view_adj view)"
    and "set (undirected_iter view) \<subseteq> {(u, v). v \<in> stored (view_adj view) u}"
proof -
  obtain seen' out' where r: "iter_items (view_adj view) ([], []) = (seen', out')"
    by (cases "iter_items (view_adj view) ([], [])")
  have out: "undirected_iter view = out'"
    by (simp add: undirected_iter_def r)
  from iter_items_inv[OF r]
  have a: "distinct seen'" and b: "map frozenset out' = rev seen'"
    and c: "set seen' = frozenset ` item_pairs (view_adj view)"
    and e: "set out' \<subseteq> item_pairs (view_adj view)"
    by simp_all
  note ip = item_pairs_stored[OF assms]
  show "distinct (map frozenset (undirected_iter view))"
    unfolding out b using a by simp
  have "frozenset ` set out' = set (map frozenset out')"
    by simp
  also have "\<dots> = set seen'"
    unfolding b by simp
  finally show "frozenset ` set (undirected_iter view) = connected_pairs (view_adj view)"
    unfolding out c ip by (simp add: frozenset_image_stored)
  show "set (undirected_iter view) \<subseteq> {(u, v). v \<in> stored (view_adj view) u}"
    unfolding out using e ip by simp
qed


section \<open>Directed graphs\<close>

text \<open>
  C1 (forward and backward adjacency stay consistent and have the same keys): the code
  does not keep this. \<open>add_node\<close> is inherited from the base class and creates the
  forward entry only, so after \<open>add_node(1)\<close> on a new directed graph the forward keys
  are \<open>{1}\<close> and the backward keys are empty. \<open>remove_node\<close> deletes the forward
  entry of the node only: after \<open>add_edge(1, 2); remove_node(1)\<close> label 1 is still a
  predecessor of 2 although 2 is no successor of 1.
\<close>

theorem directed_key_sets_diverge:
  "keys (adj (directed_run [AddNode 1] (new_directed_graph :: nat digraph))) = {1} \<and>
   keys (back_adj (directed_run [AddNode 1] (new_directed_graph :: nat digraph))) = {} \<and>
   1 \<in> stored (back_adj (directed_run [AddEdge 1 2, RemoveNode 1]
                          (new_directed_graph :: nat digraph))) 2 \<and>
   2 \<notin> stored (adj (directed_run [AddEdge 1 2, RemoveNode 1]
                       (new_directed_graph :: nat digraph))) 1"
  by code_simp

text \<open>
  C2 (\<open>remove_node\<close> never raises): on the directed graph reached by
  \<open>add_node(1)\<close> the call \<open>remove_node(1)\<close> finds 1 among the nodes, looks up
  \<open>back_adj[1]\<close> and raises \<open>KeyError\<close>, leaving the graph as it was. For undirected
  graphs the call does not raise in any state that satisfies \<open>undirected_inv\<close>
  (\<open>undirected_remove_node_inv\<close>).
\<close>

theorem directed_remove_node_raises:
  "directed_remove_node 1 (directed_run [AddNode 1] (new_directed_graph :: nat digraph)) =
     (Some KeyError, \<lparr>adj = [(1, [])], number_of_edges = 0, back_adj = []\<rparr>)"
  by code_simp

text \<open>
  C3: on a new directed graph, calling \<open>add_edge(1, 2)\<close> twice leaves the edge counter
  (and the length of the edges view) at 2 while the successors of 1 are the one-element
  set holding 2.
\<close>

theorem directed_add_edge_twice:
  "number_of_edges (directed_run [AddEdge 1 2, AddEdge 1 2]
      (new_directed_graph :: nat digraph)) = 2 \<and>
   len (edges (directed_run [AddEdge 1 2, AddEdge 1 2]
      (new_directed_graph :: nat digraph))) = 2 \<and>
   successors 1 (directed_run [AddEdge 1 2, AddEdge 1 2]
      (new_directed_graph :: nat digraph)) = Inr [2]"
  by code_simp

section \<open>Undirected graphs\<close>







section \<open>Edge views\<close>





section \<open>The base class\<close>

text \<open>
  C9: for every graph state of either kind, calling \<open>add_node(x)\<close> twice leaves the
  same state, hence the same nodes and edges, as calling it once.
\<close>

theorem add_node_idempotent:
  "add_node x (add_node x g) = add_node x g"
  by (simp add: add_node_def nodes_def update_keys)

section \<open>Iteration over undirected edges and argument order\<close>

text \<open>
  C6: iterating the edges view of an undirected graph yields every undirected edge
  exactly once. No pair is yielded twice; every yielded pair \<open>(u, v)\<close> has \<open>v\<close> in
  the set stored for \<open>u\<close>; for every \<open>v\<close> in the set stored for \<open>u\<close> one of
  \<open>(u, v)\<close>, \<open>(v, u)\<close> is yielded and, for distinct labels, not both; and the number of
  yielded pairs is the number of connected unordered pairs. This needs only that the
  dict has no duplicate keys, so it holds in particular for every symmetric adjacency.
\<close>

theorem undirected_iter_exactly_once:
  assumes "distinct (map fst (adj g))"
  shows "distinct (undirected_iter (edges g)) \<and>
    set (undirected_iter (edges g)) \<subseteq> {(u, v). v \<in> stored (adj g) u} \<and>
    (\<forall>u v. v \<in> stored (adj g) u \<longrightarrow>
       ((u, v) \<in> set (undirected_iter (edges g)) \<or> (v, u) \<in> set (undirected_iter (edges g))) \<and>
       (u \<noteq> v \<longrightarrow> \<not> ((u, v) \<in> set (undirected_iter (edges g)) \<and>
                          (v, u) \<in> set (undirected_iter (edges g))))) \<and>
    length (undirected_iter (edges g)) = card (connected_pairs (adj g))"
proof -
  let ?out = "undirected_iter (edges g)"
  have va: "view_adj (edges g) = adj g"
    by (simp add: edges_def)
  have k: "distinct (map fst (view_adj (edges g)))"
    using assms by (simp add: va)
  have D: "distinct (map frozenset ?out)"
    by (rule undirected_iter_inv(1)[OF k])
  have I: "frozenset ` set ?out = connected_pairs (adj g)"
    using undirected_iter_inv(2)[OF k] by (simp add: va)
  have S: "set ?out \<subseteq> {(u, v). v \<in> stored (adj g) u}"
    using undirected_iter_inv(3)[OF k] by (simp add: va)
  have d: "distinct ?out" and inj: "inj_on frozenset (set ?out)"
    using D by (simp_all add: distinct_map)
  have once: "((u, v) \<in> set ?out \<or> (v, u) \<in> set ?out) \<and>
       (u \<noteq> v \<longrightarrow> \<not> ((u, v) \<in> set ?out \<and> (v, u) \<in> set ?out))"
    if uv: "v \<in> stored (adj g) u" for u v
  proof
    have "{u, v} \<in> connected_pairs (adj g)"
      using uv unfolding connected_pairs_iff by blast
    then obtain e where e: "e \<in> set ?out" "frozenset e = {u, v}"
      unfolding I[symmetric] by auto
    obtain a b where ab: "e = (a, b)" by (cases e)
    have "{a, b} = {u, v}"
      using e(2) by (simp add: ab frozenset_def)
    then have "e = (u, v) \<or> e = (v, u)"
      unfolding ab by (auto simp: doubleton_eq_iff)
    then show "(u, v) \<in> set ?out \<or> (v, u) \<in> set ?out"
      using e(1) by auto
    show "u \<noteq> v \<longrightarrow> \<not> ((u, v) \<in> set ?out \<and> (v, u) \<in> set ?out)"
    proof (intro impI notI)
      assume ne: "u \<noteq> v" and both: "(u, v) \<in> set ?out \<and> (v, u) \<in> set ?out"
      have feq: "frozenset (u, v) = frozenset (v, u)"
        by (simp add: frozenset_def insert_commute)
      from both have m1: "(u, v) \<in> set ?out" and m2: "(v, u) \<in> set ?out"
        by blast+
      have "(u, v) = (v, u)"
        using inj feq m1 m2 by (rule inj_onD)
      with ne show False by simp
    qed
  qed
  have "length ?out = length (map frozenset ?out)"
    by simp
  also have "\<dots> = card (set (map frozenset ?out))"
    using D by (simp only: distinct_card)
  also have "\<dots> = card (connected_pairs (adj g))"
    using I by simp
  finally have len: "length ?out = card (connected_pairs (adj g))" .
  from d S once len show ?thesis
    by blast
qed

theorem undirected_iter_exactly_once_witness:
  "distinct (map fst (adj (undirected_run
      [AddEdge (Plain 1) (Plain 2), AddEdge (Plain 2) (Plain (3::nat))]
      new_undirected_graph))) \<and>
   undirected_iter (edges (undirected_run
      [AddEdge (Plain 1) (Plain 2), AddEdge (Plain 2) (Plain (3::nat))]
      new_undirected_graph)) = [(Plain 1, Plain 2), (Plain 2, Plain 3)] \<and>
   length (undirected_iter (edges (undirected_run
      [AddEdge (Plain 1) (Plain 2), AddEdge (Plain 2) (Plain (3::nat))]
      new_undirected_graph))) =
     card (connected_pairs (adj (undirected_run
      [AddEdge (Plain 1) (Plain 2), AddEdge (Plain 2) (Plain (3::nat))]
      new_undirected_graph)))"
proof -
  let ?g = "undirected_run [AddEdge (Plain 1) (Plain 2), AddEdge (Plain 2) (Plain (3::nat))]
      new_undirected_graph"
  have h: "distinct (map fst (adj ?g))"
    by code_simp
  have e: "undirected_iter (edges ?g) = [(Plain 1, Plain 2), (Plain 2, Plain 3)]"
    by code_simp
  from h e undirected_iter_exactly_once[OF h] show ?thesis
    by blast
qed

text \<open>
  C10, as stated for every state, fails where the adjacency is not symmetric: with 2 stored
  for 1 but not 1 for 2, \<open>add_edge(1, 2)\<close> finds the edge and changes nothing, while
  \<open>add_edge(2, 1)\<close> does not find it and counts it. Such a state is also reached through
  the methods: in the state left by \<open>add_edge(nan, 8); add_edge(nan, nan);
  remove_node(nan)\<close> the calls \<open>add_edge(nan, 8)\<close> and \<open>add_edge(8, nan)\<close> leave the
  counter at 0 and at 1.
\<close>

theorem undirected_add_edge_commutes_counterexample:
  "number_of_edges (snd (undirected_add_edge (Plain 1) (Plain 2)
      \<lparr>adj = [(Plain (1::nat), [Plain 2]), (Plain 2, [])], number_of_edges = 0\<rparr>)) = 0 \<and>
   number_of_edges (snd (undirected_add_edge (Plain 2) (Plain 1)
      \<lparr>adj = [(Plain (1::nat), [Plain 2]), (Plain 2, [])], number_of_edges = 0\<rparr>)) = 1 \<and>
   number_of_edges (snd (undirected_add_edge (NaN 0) (Plain 8) (undirected_run
      [AddEdge (NaN 0) (Plain 8), AddEdge (NaN 0) (NaN 0), RemoveNode (NaN 0)]
      (new_undirected_graph :: nat label graph)))) = 0 \<and>
   number_of_edges (snd (undirected_add_edge (Plain 8) (NaN 0) (undirected_run
      [AddEdge (NaN 0) (Plain 8), AddEdge (NaN 0) (NaN 0), RemoveNode (NaN 0)]
      (new_undirected_graph :: nat label graph)))) = 1"
  by code_simp

text \<open>
  C10, amended: in every undirected graph state whose adjacency is symmetric and for
  every pair of distinct labels \<open>u\<close> and \<open>v\<close>, \<open>add_edge(u, v)\<close> and \<open>add_edge(v, u)\<close>
  both complete without raising and leave equal adjacency dicts (same keys, equal sets
  under each key) and the same edge counter.
\<close>

theorem undirected_add_edge_commutes:
  assumes sym: "symmetric (adj g)" and ne: "u \<noteq> v"
  shows "fst (undirected_add_edge u v g) = None \<and>
    fst (undirected_add_edge v u g) = None \<and>
    mapping (adj (snd (undirected_add_edge u v g))) =
      mapping (adj (snd (undirected_add_edge v u g))) \<and>
    number_of_edges (snd (undirected_add_edge u v g)) =
      number_of_edges (snd (undirected_add_edge v u g))"
proof (cases "v \<in> stored (adj g) u")
  case True
  then have True': "u \<in> stored (adj g) v"
    using sym by (rule symmetricD[rotated])
  from undirected_add_edge_old[OF ne True] obtain d1 where
    r1: "undirected_add_edge u v g = (None, g\<lparr>adj := d1\<rparr>)"
    and s1: "stored d1 = stored (adj g)"
    and k1: "keys d1 = insert u (insert v (keys (adj g)))"
    by blast
  from undirected_add_edge_old[OF ne[symmetric] True'] obtain d2 where
    r2: "undirected_add_edge v u g = (None, g\<lparr>adj := d2\<rparr>)"
    and s2: "stored d2 = stored (adj g)"
    and k2: "keys d2 = insert v (insert u (keys (adj g)))"
    by blast
  have "mapping d1 = mapping d2"
    by (rule mapping_eqI) (simp_all add: s1 s2 k1 k2 insert_commute)
  then show ?thesis by (simp add: r1 r2)
next
  case False
  then have False': "u \<notin> stored (adj g) v"
    using symmetricD[OF sym, of u v] by blast
  from undirected_add_edge_new[OF ne False] obtain d1 where
    r1: "undirected_add_edge u v g =
           (None, g\<lparr>adj := d1, number_of_edges := number_of_edges g + 1\<rparr>)"
    and s1: "stored d1 = (stored (adj g))(u := insert v (stored (adj g) u),
                                        v := insert u (stored (adj g) v))"
    and k1: "keys d1 = insert u (insert v (keys (adj g)))"
    by blast
  from undirected_add_edge_new[OF ne[symmetric] False'] obtain d2 where
    r2: "undirected_add_edge v u g =
           (None, g\<lparr>adj := d2, number_of_edges := number_of_edges g + 1\<rparr>)"
    and s2: "stored d2 = (stored (adj g))(v := insert u (stored (adj g) v),
                                        u := insert v (stored (adj g) u))"
    and k2: "keys d2 = insert v (insert u (keys (adj g)))"
    by blast
  have "stored d1 = stored d2"
    unfolding s1 s2 using ne by (rule fun_upd_twist)
  then have "mapping d1 = mapping d2"
    by (rule mapping_eqI) (simp add: k1 k2 insert_commute)
  then show ?thesis by (simp add: r1 r2)
qed

theorem undirected_add_edge_commutes_witness:
  "symmetric (adj (undirected_run [AddEdge (Plain 1) (Plain (3::nat))] new_undirected_graph)) \<and>
   Plain (1::nat) \<noteq> Plain 2 \<and>
   mapping (adj (snd (undirected_add_edge (Plain 1) (Plain 2)
       (undirected_run [AddEdge (Plain 1) (Plain (3::nat))] new_undirected_graph)))) =
   mapping (adj (snd (undirected_add_edge (Plain 2) (Plain 1)
       (undirected_run [AddEdge (Plain 1) (Plain (3::nat))] new_undirected_graph)))) \<and>
   number_of_edges (snd (undirected_add_edge (Plain 1) (Plain 2)
       (undirected_run [AddEdge (Plain 1) (Plain (3::nat))] new_undirected_graph))) = 2 \<and>
   number_of_edges (snd (undirected_add_edge (Plain 2) (Plain 1)
       (undirected_run [AddEdge (Plain 1) (Plain (3::nat))] new_undirected_graph))) = 2"
proof -
  let ?g = "undirected_run [AddEdge (Plain 1) (Plain (3::nat))] new_undirected_graph"
  have g: "?g = \<lparr>adj = [(Plain 1, [Plain 3]), (Plain 3, [Plain 1])], number_of_edges = 1\<rparr>"
    by code_simp
  have h1: "symmetric (adj ?g)"
    unfolding g symmetric_def stored_def by (auto split: if_splits)
  have h2: "Plain (1::nat) \<noteq> Plain 2"
    by simp
  have n: "number_of_edges (snd (undirected_add_edge (Plain 1) (Plain 2) ?g)) = 2"
    by code_simp
  from h1 h2 n undirected_add_edge_commutes[OF h1 h2] show ?thesis
    by simp
qed

end
